theory Spec2Isabelle
  imports Complex_Main
begin

section \<open>NACA 4-digit airfoil coordinates (naca.py)\<close>

text \<open>
  The development embeds the function \<open>NACA4\<close> of \<open>naca.py\<close>.  Python floats are
  idealised as real numbers: every arithmetic operation, \<open>sqrt\<close> and \<open>cos\<close> is the exact
  one, so the theorems speak about the formulas the code evaluates and not about
  rounding.  Python strings are lists of characters with code points below 256.
  The exceptions of the code are values of the type \<open>error\<close>; a call returns
  \<open>Inl e\<close> when it raises and \<open>Inr v\<close> when it returns \<open>v\<close>.
\<close>

datatype error = ValueError | IndexError | OSError

subsection \<open>The built-ins \<open>int\<close> and \<open>float\<close> on strings\<close>

text \<open>
  \<open>int(s)\<close> in base 10 strips white space at both ends, reads an optional sign and then
  decimal digits, where single underscores may separate digits.  The white space
  characters it strips are the code points 9 to 13, 32, 0x85 and 0xA0.
\<close>

definition is_space :: "char \<Rightarrow> bool" where
  "is_space c = ((of_char c :: nat) \<in> {9, 10, 11, 12, 13, 32, 133, 160})"

definition is_digit :: "char \<Rightarrow> bool" where
  "is_digit c = (48 \<le> (of_char c :: nat) \<and> (of_char c :: nat) \<le> 57)"

definition digit_val :: "char \<Rightarrow> nat" where
  "digit_val c = of_char c - 48"

definition strip :: "string \<Rightarrow> string" where
  "strip s = rev (dropWhile is_space (rev (dropWhile is_space s)))"

fun digitpart :: "nat \<Rightarrow> string \<Rightarrow> nat option" where
  "digitpart acc [] = None"
| "digitpart acc [c] = (if is_digit c then Some (10 * acc + digit_val c) else None)"
| "digitpart acc (c # d # ds) =
     (if \<not> is_digit c then None
      else if d = CHR ''_'' then digitpart (10 * acc + digit_val c) ds
      else digitpart (10 * acc + digit_val c) (d # ds))"

definition dec_literal :: "string \<Rightarrow> int option" where
  "dec_literal s =
     (case strip s of
        [] \<Rightarrow> None
      | c # cs \<Rightarrow>
          if c = CHR ''+'' then map_option int (digitpart 0 cs)
          else if c = CHR ''-'' then map_option (\<lambda>n. - int n) (digitpart 0 cs)
          else map_option int (digitpart 0 (c # cs)))"

definition py_int :: "string \<Rightarrow> error + int" where
  "py_int s = (case dec_literal s of None \<Rightarrow> Inl ValueError | Some k \<Rightarrow> Inr k)"

text \<open>
  \<open>float(s)\<close> is called by \<open>NACA4\<close> only on pieces of a string that \<open>int\<close> has
  accepted, so on strings of white space, signs, digits and underscores (lemma
  \<open>py_int_alphabet\<close> below).  On these \<open>float\<close> accepts exactly the literals of \<open>int\<close>,
  with the same value; literals with a point, an exponent, \<open>inf\<close> or \<open>nan\<close> never reach
  it and are not modelled.
\<close>

definition py_float :: "string \<Rightarrow> error + real" where
  "py_float s = (case dec_literal s of None \<Rightarrow> Inl ValueError | Some k \<Rightarrow> Inr (real_of_int k))"

text \<open>\<open>s[i]\<close> for a string and \<open>i \<ge> 0\<close>: a string of one character, or IndexError.\<close>

definition str_at :: "string \<Rightarrow> nat \<Rightarrow> error + string" where
  "str_at s i = (if i < length s then Inr [s ! i] else Inl IndexError)"

subsection \<open>The numpy functions the code calls\<close>

text \<open>
  \<open>np.linspace(start, stop, num)\<close> for \<open>num \<ge> 0\<close>, as numpy computes it: the indices
  \<open>0 .. num - 1\<close> times the step, plus \<open>start\<close>, and the last element set to
  \<open>stop\<close> when \<open>num > 1\<close>.  With \<open>num = 1\<close> there is no step and the result is
  \<open>[start]\<close>.  (A negative \<open>num\<close> raises in numpy; \<open>NACA4\<close> calls it after checking
  \<open>N > 0\<close>.)
\<close>

definition linspace :: "real \<Rightarrow> real \<Rightarrow> int \<Rightarrow> real list" where
  "linspace start stop num =
     (let n = nat num;
          dv = num - 1;
          delta = stop - start;
          y = map real [0..<n];
          y1 = (if dv > 0
                then (let step = delta / real_of_int dv
                      in if step = 0 then map (\<lambda>v. v / real_of_int dv * delta) y
                         else map (\<lambda>v. v * step) y)
                else map (\<lambda>v. v * delta) y);
          y2 = map (\<lambda>v. v + start) y1
      in if num > 1 then y2[n - 1 := stop] else y2)"

text \<open>
  The file system: the content of each file, and the names that cannot be written.
  \<open>np.savetxt(fname, X, delimiter, fmt, header)\<close> writes the header, each of its lines
  after the comment prefix \<open>#\<close> and a space (numpy's default \<open>comments\<close>), and
  then one line for each row, the two numbers formatted by \<open>fmt\<close> and joined by the
  delimiter.
\<close>

record fsys =
  files :: "string \<rightharpoonup> string"
  unwritable :: "string \<Rightarrow> bool"

function show_nat :: "nat \<Rightarrow> string" where
  "show_nat n =
     (if n < 10 then [''0123456789'' ! n]
      else show_nat (n div 10) @ [''0123456789'' ! (n mod 10)])"
  by pat_completeness auto
termination
  by (relation "measure id") auto

declare show_nat.simps [simp del]

text \<open>
  The format \<open>%f\<close> on a real number: sign, integer part, point, six decimals, the
  value rounded to the nearest multiple of \<open>10\<^sup>-\<^sup>6\<close> (a tie to the even one).
\<close>

definition fmt_f :: "real \<Rightarrow> string" where
  "fmt_f v =
     (let scaled = \<bar>v\<bar> * 1000000;
          q = \<lfloor>scaled\<rfloor>;
          r = scaled - real_of_int q;
          n = nat (if r > 1 / 2 \<or> (r = 1 / 2 \<and> odd q) then q + 1 else q);
          frac = show_nat (n mod 1000000)
      in (if v < 0 then ''-'' else '''') @ show_nat (n div 1000000) @ ''.''
           @ replicate (6 - length frac) (CHR ''0'') @ frac)"

fun comment_lines :: "string \<Rightarrow> string" where
  "comment_lines [] = []"
| "comment_lines (c # cs) =
     (if c = CHR 0x0A then c # ''# '' @ comment_lines cs else c # comment_lines cs)"

definition savetxt ::
  "fsys \<Rightarrow> string \<Rightarrow> (real \<times> real) list \<Rightarrow> string \<Rightarrow> (real \<Rightarrow> string) \<Rightarrow> string \<Rightarrow> error + fsys" where
  "savetxt fs fname X delimiter fmt header =
     (if unwritable fs fname then Inl OSError
      else Inr (fs\<lparr>files := (files fs)(fname \<mapsto>
             ''# '' @ comment_lines header @ [CHR 0x0A]
             @ concat (map (\<lambda>(a, b). fmt a @ delimiter @ fmt b @ [CHR 0x0A]) X))\<rparr>))"

subsection \<open>The steps of \<open>NACA4\<close>\<close>

text \<open>Lines 68 to 77: the three parameters of the designator, scaled.\<close>

definition decode :: "string \<Rightarrow> error + (real \<times> real \<times> real)" where
  "decode number =
     (case str_at number 0 of Inl e \<Rightarrow> Inl e | Inr s0 \<Rightarrow>
      case py_float s0 of Inl e \<Rightarrow> Inl e | Inr m \<Rightarrow>
      case str_at number 1 of Inl e \<Rightarrow> Inl e | Inr s1 \<Rightarrow>
      case py_float s1 of Inl e \<Rightarrow> Inl e | Inr p \<Rightarrow>
      case py_float (drop 2 number) of Inl e \<Rightarrow> Inl e | Inr t \<Rightarrow>
        Inr (if m \<noteq> 0 then m / 100 else m,
             if p \<noteq> 0 then p / 10 else p,
             if t \<noteq> 0 then t / 100 else t))"

text \<open>Lines 81 to 84: the chordwise stations.\<close>

definition grid :: "bool \<Rightarrow> int \<Rightarrow> real list" where
  "grid half_cosine_spacing N =
     (if half_cosine_spacing then map (\<lambda>v. (1 - cos v) / 2) (linspace 0 pi N)
      else linspace 0 1 N)"

text \<open>Lines 89 to 96: the half thickness at each station.\<close>

definition thickness :: "bool \<Rightarrow> real \<Rightarrow> real list \<Rightarrow> real list" where
  "thickness closed_trailing_edge t x =
     (if closed_trailing_edge
      then map (\<lambda>v. t / 0.20 * (0.29690 * sqrt v - 0.12600 * v - 0.35160 * v ^ 2
                        + 0.28430 * v ^ 3 - 0.10360 * v ^ 4)) x
      else map (\<lambda>v. t / 0.20 * (0.29690 * sqrt v - 0.12600 * v - 0.35160 * v ^ 2
                        + 0.28430 * v ^ 3 - 0.10150 * v ^ 4)) x)"

text \<open>Lines 100 to 109: the camber line, forward stations first, then the aft ones.\<close>

definition camber :: "real \<Rightarrow> real \<Rightarrow> real list \<Rightarrow> real list" where
  "camber m p x =
     (let fwd_x = filter (\<lambda>v. v < p) x;
          aft_x = filter (\<lambda>v. v \<ge> p) x
      in if 0 < p \<and> p < 1 \<and> 0 < m \<and> m < 1
         then map (\<lambda>v. m / p ^ 2 * (2 * p * v - v ^ 2)) fwd_x
              @ map (\<lambda>v. m / (1 - p) ^ 2 * ((1 - 2 * p) + 2 * p * v - v ^ 2)) aft_x
         else replicate (length x) 0)"

text \<open>Lines 111 and 112.\<close>

definition y_upper :: "bool \<Rightarrow> real \<Rightarrow> real \<Rightarrow> real \<Rightarrow> real list \<Rightarrow> real list" where
  "y_upper cte m p t x = map (\<lambda>(c, th). c + th) (zip (camber m p x) (thickness cte t x))"

definition y_lower :: "bool \<Rightarrow> real \<Rightarrow> real \<Rightarrow> real \<Rightarrow> real list \<Rightarrow> real list" where
  "y_lower cte m p t x = map (\<lambda>(c, th). c - th) (zip (camber m p x) (thickness cte t x))"

text \<open>
  Lines 114 to 130: the upper surface reversed, then the lower surface without its
  first station; \<open>y[0] = 0\<close> and \<open>y[-1] = 0\<close> when the trailing edge is closed (an
  IndexError on an empty array); the two columns side by side.
\<close>

definition coordinates ::
  "bool \<Rightarrow> bool \<Rightarrow> real \<Rightarrow> real \<Rightarrow> real \<Rightarrow> int \<Rightarrow> error + (real \<times> real) list" where
  "coordinates half_cosine_spacing closed_trailing_edge m p t N =
     (let x0 = grid half_cosine_spacing N;
          x = rev x0 @ drop 1 x0;
          y = rev (y_upper closed_trailing_edge m p t x0)
              @ drop 1 (y_lower closed_trailing_edge m p t x0)
      in if closed_trailing_edge
         then (if y = [] then Inl IndexError
               else Inr (zip x ((y[0 := 0])[length y - 1 := 0])))
         else Inr (zip x y))"

text \<open>The function, with the file system it may write to.\<close>

definition NACA4 ::
  "string \<Rightarrow> int \<Rightarrow> bool \<Rightarrow> bool \<Rightarrow> bool \<Rightarrow> fsys \<Rightarrow> error + ((real \<times> real) list \<times> fsys)" where
  "NACA4 number N half_cosine_spacing closed_trailing_edge save_to_file fs =
     (case py_int number of Inl e \<Rightarrow> Inl e | Inr k \<Rightarrow>
      if \<not> (0 < k \<and> k < 10000 \<and> N > 0) then Inl ValueError
      else
        case decode number of Inl e \<Rightarrow> Inl e | Inr (m, p, t) \<Rightarrow>
        case coordinates half_cosine_spacing closed_trailing_edge m p t N of
          Inl e \<Rightarrow> Inl e
        | Inr cs \<Rightarrow>
            if save_to_file
            then (case savetxt fs (''NACA '' @ number @ ''.dat'') cs [CHR 0x09] fmt_f
                         (''NACA '' @ number) of
                    Inl e \<Rightarrow> Inl e
                  | Inr fs' \<Rightarrow> Inr (cs, fs'))
            else Inr (cs, fs))"

text \<open>Lines 126 to 128 on their own: the two assignments to the ends of \<open>y\<close>.\<close>

definition close_ends :: "bool \<Rightarrow> real list \<Rightarrow> real list" where
  "close_ends cte y = (if cte then (y[0 := 0])[length y - 1 := 0] else y)"


text \<open>
  The check of line 62, the success of lines 68 to 77, and the designators that are
  four decimal digits.
\<close>

definition valid_input :: "string \<Rightarrow> int \<Rightarrow> bool" where
  "valid_input number N =
     (case py_int number of Inl e \<Rightarrow> False | Inr k \<Rightarrow> 0 < k \<and> k < 10000 \<and> N > 0)"

definition decodable :: "string \<Rightarrow> bool" where
  "decodable number = (case decode number of Inl e \<Rightarrow> False | Inr v \<Rightarrow> True)"

definition four_digits :: "string \<Rightarrow> bool" where
  "four_digits number = (length number = 4 \<and> list_all is_digit number)"

text \<open>A file system with no files in which every name can be written.\<close>

definition empty_fs :: fsys where
  "empty_fs = \<lparr>files = Map.empty, unwritable = (\<lambda>name. False)\<rparr>"

text \<open>The first line of a text.\<close>

definition first_line :: "string \<Rightarrow> string" where
  "first_line s = takeWhile (\<lambda>c. c \<noteq> CHR 0x0A) s"

text \<open>
  Twice the signed area of the closed polygon through a list of points (the sum of
  \<open>x\<^sub>i y\<^sub>i\<^sub>+\<^sub>1 - x\<^sub>i\<^sub>+\<^sub>1 y\<^sub>i\<close> over its edges, the edge from the last point back to the
  first included).  With the y axis upward it is positive for a counter-clockwise polygon
  and negative for a clockwise one.
\<close>

fun edge_sum :: "(real \<times> real) list \<Rightarrow> real" where
  "edge_sum ((x1, y1) # (x2, y2) # ps) = x1 * y2 - x2 * y1 + edge_sum ((x2, y2) # ps)"
| "edge_sum ps = 0"

definition signed_area2 :: "(real \<times> real) list \<Rightarrow> real" where
  "signed_area2 ps = (case ps of [] \<Rightarrow> 0 | q # qs \<Rightarrow> edge_sum (ps @ [q]))"

section \<open>Lengths and positions in the assembled loop\<close>

lemma length_linspace: "length (linspace a b N) = nat N"
  by (simp add: linspace_def Let_def)

lemma length_grid: "length (grid hc N) = nat N"
  by (simp add: grid_def length_linspace)

lemma length_thickness: "length (thickness cte t x) = length x"
  by (simp add: thickness_def)

lemma length_camber: "length (camber m p x) = length x"
  using sum_length_filter_compl [of "\<lambda>v. v < p" x]
  by (simp add: camber_def Let_def not_less)

lemma length_y_upper: "length (y_upper cte m p t x) = length x"
  by (simp add: y_upper_def length_camber length_thickness)

lemma length_y_lower: "length (y_lower cte m p t x) = length x"
  by (simp add: y_lower_def length_camber length_thickness)

lemma loop_nth_upper:
  assumes "i < length xs"
  shows "(rev xs @ drop 1 ys) ! (length xs - 1 - i) = xs ! i"
proof -
  have k: "length xs - 1 - i < length xs"
    using assms by simp
  have "(rev xs @ drop 1 ys) ! (length xs - 1 - i) = rev xs ! (length xs - 1 - i)"
    using k by (simp add: nth_append)
  also have "\<dots> = xs ! (length xs - Suc (length xs - 1 - i))"
    using k by (rule rev_nth)
  also have "length xs - Suc (length xs - 1 - i) = i"
    using assms by simp
  finally show ?thesis .
qed

lemma loop_nth_lower:
  assumes "1 \<le> i" and "i < length ys" and "length xs = length ys"
  shows "(rev xs @ drop 1 ys) ! (length xs - 1 + i) = ys ! i"
proof -
  have "\<not> length xs - 1 + i < length (rev xs)"
    using assms by simp
  moreover have "length xs - 1 + i - length (rev xs) = i - 1"
    using assms by simp
  ultimately have "(rev xs @ drop 1 ys) ! (length xs - 1 + i) = drop 1 ys ! (i - 1)"
    by (simp only: nth_append if_False)
  also have "\<dots> = ys ! i"
    using assms by simp
  finally show ?thesis .
qed

lemma length_close_ends: "length (close_ends cte y) = length y"
  by (simp add: close_ends_def)

lemma close_ends_nth:
  "k < length y \<Longrightarrow>
     close_ends cte y ! k = (if cte \<and> (k = 0 \<or> k = length y - 1) then 0 else y ! k)"
  by (cases k) (auto simp: close_ends_def nth_list_update)

lemma coordinates_eq:
  assumes "0 < N"
  shows "coordinates hc cte m p t N =
           Inr (zip (rev (grid hc N) @ drop 1 (grid hc N))
                  (close_ends cte (rev (y_upper cte m p t (grid hc N))
                                    @ drop 1 (y_lower cte m p t (grid hc N)))))"
proof -
  have "length (y_upper cte m p t (grid hc N)) \<noteq> 0"
    using assms by (simp add: length_y_upper length_grid)
  then have "y_upper cte m p t (grid hc N) \<noteq> []"
    by (simp del: length_0_conv)
  then show ?thesis
    by (cases cte) (simp_all add: coordinates_def Let_def close_ends_def)
qed

lemma coordinates_Inr_pos:
  assumes "coordinates hc cte m p t N = Inr cs" and "0 < N"
  shows "length cs = nat (2 * N - 1)"
  using assms
  by (auto simp: coordinates_eq length_close_ends length_grid length_y_upper length_y_lower)

lemma coordinates_nth:
  assumes "coordinates hc cte m p t N = Inr cs" and "0 < N" and "k < nat (2 * N - 1)"
  shows "cs ! k = ((rev (grid hc N) @ drop 1 (grid hc N)) ! k,
                   close_ends cte (rev (y_upper cte m p t (grid hc N))
                                    @ drop 1 (y_lower cte m p t (grid hc N))) ! k)"
proof -
  have "cs = zip (rev (grid hc N) @ drop 1 (grid hc N))
                  (close_ends cte (rev (y_upper cte m p t (grid hc N))
                                    @ drop 1 (y_lower cte m p t (grid hc N))))"
    using assms(1,2) by (simp add: coordinates_eq)
  moreover have "k < length (rev (grid hc N) @ drop 1 (grid hc N))"
    using assms(2,3) by (simp add: length_grid)
  moreover have "k < length (close_ends cte (rev (y_upper cte m p t (grid hc N))
                                    @ drop 1 (y_lower cte m p t (grid hc N))))"
    using assms(2,3) by (simp add: length_close_ends length_y_upper length_y_lower length_grid)
  ultimately show ?thesis
    by (simp only: nth_zip)
qed

lemma idx_upper:
  "0 < n \<Longrightarrow> i < n \<Longrightarrow> ((n::nat) - 1 - i = 0 \<or> n - 1 - i = n + (n - 1) - 1) = (i = n - 1)"
  by auto

lemma idx_lower:
  "1 \<le> i \<Longrightarrow> i < n \<Longrightarrow> ((n::nat) - 1 + i = 0 \<or> n - 1 + i = n + (n - 1) - 1) = (i = n - 1)"
  by auto

lemma idx_last: "0 < n \<Longrightarrow> (n::nat) - 1 + (n - 1) = n + (n - 1) - 1"
  by simp

lemma idx_bound_lower: "i < nat N \<Longrightarrow> nat N - 1 + i < nat (2 * N - 1)"
  by (simp add: nat_diff_distrib nat_mult_distrib)

lemma nat_2N: "0 < N \<Longrightarrow> nat (2 * N - 1) = nat N + (nat N - 1)"
  by (simp add: nat_diff_distrib nat_mult_distrib)

lemma coordinates_upper:
  assumes "coordinates hc cte m p t N = Inr cs" and "i < nat N"
  shows "cs ! (nat N - 1 - i) =
           (grid hc N ! i, if cte \<and> i = nat N - 1 then 0 else y_upper cte m p t (grid hc N) ! i)"
proof -
  let ?g = "grid hc N" and ?u = "y_upper cte m p t (grid hc N)" and ?l = "y_lower cte m p t (grid hc N)"
  have N: "0 < N" using assms(2) by simp
  have n: "0 < nat N" using assms(2) by simp
  have lg: "length ?g = nat N" and lu: "length ?u = nat N" and ll: "length ?l = nat N"
    by (simp_all add: length_grid length_y_upper length_y_lower)
  have x: "(rev ?g @ drop 1 ?g) ! (nat N - 1 - i) = ?g ! i"
    using loop_nth_upper [of i ?g ?g] assms(2) lg by simp
  have y: "(rev ?u @ drop 1 ?l) ! (nat N - 1 - i) = ?u ! i"
    using loop_nth_upper [of i ?u ?l] assms(2) lu by simp
  have len: "length (rev ?u @ drop 1 ?l) = nat N + (nat N - 1)"
    by (simp add: lu ll)
  have k2: "nat N - 1 - i < nat N + (nat N - 1)"
    using n by simp
  have k1: "nat N - 1 - i < nat (2 * N - 1)"
    using k2 by (simp only: nat_2N [OF N])
  have "close_ends cte (rev ?u @ drop 1 ?l) ! (nat N - 1 - i)
          = (if cte \<and> i = nat N - 1 then 0 else ?u ! i)"
    using close_ends_nth [of "nat N - 1 - i" "rev ?u @ drop 1 ?l" cte] k2
    by (simp only: len idx_upper [OF n assms(2)] y)
  then show ?thesis
    using coordinates_nth [OF assms(1) N k1] x by simp
qed

lemma coordinates_lower:
  assumes "coordinates hc cte m p t N = Inr cs" and "1 \<le> i" and "i < nat N"
  shows "cs ! (nat N - 1 + i) =
           (grid hc N ! i, if cte \<and> i = nat N - 1 then 0 else y_lower cte m p t (grid hc N) ! i)"
proof -
  let ?g = "grid hc N" and ?u = "y_upper cte m p t (grid hc N)" and ?l = "y_lower cte m p t (grid hc N)"
  have N: "0 < N" using assms(3) by simp
  have lg: "length ?g = nat N" and lu: "length ?u = nat N" and ll: "length ?l = nat N"
    by (simp_all add: length_grid length_y_upper length_y_lower)
  have x: "(rev ?g @ drop 1 ?g) ! (nat N - 1 + i) = ?g ! i"
    using loop_nth_lower [of i ?g ?g] assms(2,3) lg by simp
  have y: "(rev ?u @ drop 1 ?l) ! (nat N - 1 + i) = ?l ! i"
    using loop_nth_lower [of i ?l ?u] assms(2,3) lu ll by simp
  have len: "length (rev ?u @ drop 1 ?l) = nat N + (nat N - 1)"
    by (simp add: lu ll)
  have k1: "nat N - 1 + i < nat (2 * N - 1)"
    using assms(3) by (rule idx_bound_lower)
  have k2: "nat N - 1 + i < nat N + (nat N - 1)"
    using k1 by (simp only: nat_2N [OF N])
  have "close_ends cte (rev ?u @ drop 1 ?l) ! (nat N - 1 + i)
          = (if cte \<and> i = nat N - 1 then 0 else ?l ! i)"
    using close_ends_nth [of "nat N - 1 + i" "rev ?u @ drop 1 ?l" cte] k2
    by (simp only: len idx_lower [OF assms(2,3)] y)
  then show ?thesis
    using coordinates_nth [OF assms(1) N k1] x by simp
qed

section \<open>The chordwise stations\<close>

lemma linspace_one: "linspace a b 1 = [a]"
  by (simp add: linspace_def Let_def)

lemma linspace_nth:
  assumes "1 < N" and "i < nat N"
  shows "linspace a b N ! i = a + real i * ((b - a) / real_of_int (N - 1))"
proof -
  let ?y = "map (\<lambda>v. v + a) (map (\<lambda>v. v * ((b - a) / real_of_int (N - 1))) (map real [0..<nat N]))"
  have eq: "linspace a b N = ?y[nat N - 1 := b]"
    using assms(1) by (auto simp: linspace_def Let_def)
  have len: "length ?y = nat N" by simp
  show ?thesis
  proof (cases "i = nat N - 1")
    case True
    have "real i = real_of_int (N - 1)"
      using True assms(1) by (simp add: of_nat_diff)
    then have "a + real i * ((b - a) / real_of_int (N - 1)) = b"
      using assms(1) by simp
    moreover have "linspace a b N ! i = b"
      using True assms(2) by (simp add: eq)
    ultimately show ?thesis by simp
  next
    case False
    then have "linspace a b N ! i = ?y ! i"
      by (simp add: eq)
    also have "\<dots> = a + real i * ((b - a) / real_of_int (N - 1))"
      using assms(2) by simp
    finally show ?thesis .
  qed
qed

lemma grid_one: "grid hc 1 = [0]"
  by (simp add: grid_def linspace_one)

lemma grid_nth_linear:
  assumes "1 < N" and "i < nat N"
  shows "grid False N ! i = real i / real_of_int (N - 1)"
  using linspace_nth [OF assms, of 0 1] by (simp add: grid_def)

lemma grid_nth_cosine:
  assumes "1 < N" and "i < nat N"
  shows "grid True N ! i = (1 - cos (pi * real i / real_of_int (N - 1))) / 2"
  using linspace_nth [OF assms, of 0 pi] assms(2)
  by (simp add: grid_def length_linspace mult.commute)

lemma grid_first:
  assumes "0 < N"
  shows "grid hc N ! 0 = 0"
proof (cases "N = 1")
  case True
  then show ?thesis by (simp add: grid_one)
next
  case False
  then have N: "1 < N" using assms by simp
  have z: "0 < nat N" using assms by simp
  show ?thesis
    using grid_nth_linear [OF N z] grid_nth_cosine [OF N z] by (cases hc) simp_all
qed

lemma grid_last:
  assumes "1 < N"
  shows "grid hc N ! (nat N - 1) = 1"
proof -
  have i: "nat N - 1 < nat N" using assms by simp
  have r: "real (nat N - 1) = real_of_int (N - 1)"
    using assms by (simp add: of_nat_diff)
  show ?thesis
    using grid_nth_linear [OF assms i] grid_nth_cosine [OF assms i] assms
    by (cases hc) (simp_all add: r)
qed

lemma grid_strict_mono:
  assumes "i < j" and "j < nat N"
  shows "grid hc N ! i < grid hc N ! j"
proof -
  have N: "1 < N" using assms by linarith
  have i: "i < nat N" using assms by simp
  have d: "0 < real_of_int (N - 1)" using N by simp
  have lt: "real i / real_of_int (N - 1) < real j / real_of_int (N - 1)"
    using assms(1) d by (simp add: divide_strict_right_mono)
  show ?thesis
  proof (cases hc)
    case False
    then show ?thesis
      using grid_nth_linear [OF N i] grid_nth_linear [OF N assms(2)] lt by simp
  next
    case True
    have le: "real j \<le> real_of_int (N - 1)"
      using assms(2) N by linarith
    have a0: "0 \<le> pi * real i / real_of_int (N - 1)"
      using d by simp
    have ab: "pi * real i / real_of_int (N - 1) < pi * real j / real_of_int (N - 1)"
      using lt pi_gt_zero by (metis mult_strict_left_mono times_divide_eq_right)
    have "real j / real_of_int (N - 1) \<le> 1"
      using le d by simp
    then have "pi * (real j / real_of_int (N - 1)) \<le> pi * 1"
      using pi_gt_zero by (intro mult_left_mono) simp_all
    then have bp: "pi * real j / real_of_int (N - 1) \<le> pi"
      by simp
    have "cos (pi * real j / real_of_int (N - 1)) < cos (pi * real i / real_of_int (N - 1))"
      using cos_monotone_0_pi [OF a0 ab bp] .
    then show ?thesis
      using True grid_nth_cosine [OF N i] grid_nth_cosine [OF N assms(2)] by simp
  qed
qed

lemma grid_sorted: "sorted (grid hc N)"
proof -
  have "sorted_wrt (<) (grid hc N)"
    using grid_strict_mono [of _ _ N hc]
    by (simp add: sorted_wrt_iff_nth_less length_grid)
  then show ?thesis
    by (rule sorted_wrt_mono_rel [rotated]) simp
qed

lemma grid_zero_iff:
  assumes "i < nat N"
  shows "grid hc N ! i = 0 \<longleftrightarrow> i = 0"
proof
  assume z: "grid hc N ! i = 0"
  show "i = 0"
  proof (rule ccontr)
    assume "i \<noteq> 0"
    then have "0 < i" by simp
    from grid_strict_mono [OF this assms, of hc] have "grid hc N ! 0 < grid hc N ! i" .
    moreover have "grid hc N ! 0 = 0"
      using assms by (intro grid_first) simp
    ultimately show False using z by simp
  qed
next
  assume "i = 0"
  then show "grid hc N ! i = 0"
    using assms by (simp add: grid_first)
qed

section \<open>Thickness and camber at a station\<close>

lemma thickness_nth:
  assumes "i < length x"
  shows "thickness cte t x ! i =
           t / 0.20 * (0.29690 * sqrt (x ! i) - 0.12600 * x ! i - 0.35160 * (x ! i) ^ 2
              + 0.28430 * (x ! i) ^ 3 - (if cte then 0.10360 else 0.10150) * (x ! i) ^ 4)"
  using assms by (simp add: thickness_def)

lemma y_upper_nth:
  assumes "i < length x"
  shows "y_upper cte m p t x ! i = camber m p x ! i + thickness cte t x ! i"
  using assms by (simp add: y_upper_def length_camber length_thickness)

lemma y_lower_nth:
  assumes "i < length x"
  shows "y_lower cte m p t x ! i = camber m p x ! i - thickness cte t x ! i"
  using assms by (simp add: y_lower_def length_camber length_thickness)

text \<open>
  The code computes the camber of the forward stations and of the aft stations and
  appends the two arrays.  On an increasing grid this puts the camber of each station at
  the position of the station.
\<close>

lemma split_map_sorted:
  fixes x :: "real list"
  assumes "sorted x"
  shows "map f (filter (\<lambda>v. v < p) x) @ map g (filter (\<lambda>v. p \<le> v) x)
           = map (\<lambda>v. if v < p then f v else g v) x"
  using assms
proof (induction x)
  case Nil
  then show ?case by simp
next
  case (Cons a x)
  then have ih: "map f (filter (\<lambda>v. v < p) x) @ map g (filter (\<lambda>v. p \<le> v) x)
           = map (\<lambda>v. if v < p then f v else g v) x"
    by simp
  show ?case
  proof (cases "a < p")
    case True
    then show ?thesis using ih by simp
  next
    case False
    then have all: "\<forall>v \<in> set x. p \<le> v"
      using Cons.prems by auto
    then have "filter (\<lambda>v. v < p) x = []" and "filter (\<lambda>v. p \<le> v) x = x"
      by (auto simp: filter_empty_conv filter_id_conv)
    moreover have "map g x = map (\<lambda>v. if v < p then f v else g v) x"
      using all by (intro map_cong) auto
    ultimately show ?thesis
      using False by simp
  qed
qed

lemma camber_sorted:
  assumes "sorted x"
  shows "camber m p x =
           (if 0 < p \<and> p < 1 \<and> 0 < m \<and> m < 1
            then map (\<lambda>v. if v < p then m / p ^ 2 * (2 * p * v - v ^ 2)
                           else m / (1 - p) ^ 2 * ((1 - 2 * p) + 2 * p * v - v ^ 2)) x
            else replicate (length x) 0)"
  unfolding camber_def Let_def by (simp only: split_map_sorted [OF assms])

lemma camber_nth:
  assumes "i < nat N"
  shows "camber m p (grid hc N) ! i =
           (if 0 < p \<and> p < 1 \<and> 0 < m \<and> m < 1
            then (if grid hc N ! i < p
                  then m / p ^ 2 * (2 * p * grid hc N ! i - (grid hc N ! i) ^ 2)
                  else m / (1 - p) ^ 2 * ((1 - 2 * p) + 2 * p * grid hc N ! i - (grid hc N ! i) ^ 2))
            else 0)"
  using assms by (simp add: camber_sorted [OF grid_sorted] length_grid)

lemma camber_first:
  assumes "0 < N"
  shows "camber m p (grid hc N) ! 0 = 0"
proof -
  have "0 < nat N" using assms by simp
  from camber_nth [OF this, of m p hc] show ?thesis
    by (simp add: grid_first [OF assms])
qed

lemma thickness_first:
  assumes "0 < N"
  shows "thickness cte t (grid hc N) ! 0 = 0"
  using assms thickness_nth [of 0 "grid hc N" cte t]
  by (simp add: length_grid grid_first [OF assms])

section \<open>Decoding the designator\<close>

lemma py_float_char:
  "py_float [c] = (if is_digit c then Inr (real (digit_val c)) else Inl ValueError)"
  by (auto simp: py_float_def dec_literal_def strip_def is_digit_def is_space_def)

lemma decode_eq:
  "decode number =
     (if length number = 0 then Inl IndexError
      else if \<not> is_digit (number ! 0) then Inl ValueError
      else if length number < 2 then Inl IndexError
      else if \<not> is_digit (number ! 1) then Inl ValueError
      else case dec_literal (drop 2 number) of
             None \<Rightarrow> Inl ValueError
           | Some k \<Rightarrow> Inr (real (digit_val (number ! 0)) / 100,
                             real (digit_val (number ! 1)) / 10,
                             real_of_int k / 100))"
proof (cases "dec_literal (drop 2 number)")
  case None
  then have "py_float (drop 2 number) = Inl ValueError"
    by (simp add: py_float_def)
  then show ?thesis
    by (simp add: decode_def str_at_def py_float_char None)
next
  case (Some k)
  then have "py_float (drop 2 number) = Inr (real_of_int k)"
    by (simp add: py_float_def)
  then show ?thesis
    by (simp add: decode_def str_at_def py_float_char Some)
qed

lemma decode_Inr_iff:
  "decode number = Inr (m, p, t) \<longleftrightarrow>
     2 \<le> length number \<and> is_digit (number ! 0) \<and> is_digit (number ! 1)
     \<and> m = real (digit_val (number ! 0)) / 100
     \<and> p = real (digit_val (number ! 1)) / 10
     \<and> (\<exists>k. dec_literal (drop 2 number) = Some k \<and> t = real_of_int k / 100)"
proof (cases "dec_literal (drop 2 number)")
  case None
  then show ?thesis by (simp add: decode_eq)
next
  case (Some k)
  then show ?thesis by (auto simp: decode_eq)
qed

lemma digit_val_le: "is_digit c \<Longrightarrow> digit_val c \<le> 9"
  unfolding is_digit_def digit_val_def by linarith


lemma decode_range:
  assumes "decode number = Inr (m, p, t)"
  shows "0 \<le> m \<and> m \<le> 9 / 100 \<and> 0 \<le> p \<and> p \<le> 9 / 10"
proof -
  have a: "is_digit (number ! 0)" and b: "is_digit (number ! 1)"
    and m: "m = real (digit_val (number ! 0)) / 100"
    and p: "p = real (digit_val (number ! 1)) / 10"
    using assms by (simp_all add: decode_Inr_iff)
  have "real (digit_val (number ! 0)) \<le> 9" and "real (digit_val (number ! 1)) \<le> 9"
    using digit_val_le [OF a] digit_val_le [OF b] by simp_all
  then show ?thesis
    by (simp add: m p)
qed

lemma digit_not_special:
  assumes "is_digit c"
  shows "\<not> is_space c" and "c \<noteq> CHR ''+''" and "c \<noteq> CHR ''-''" and "c \<noteq> CHR ''_''"
  using assms by (auto simp: is_digit_def is_space_def)

lemma dec_literal_two_digits:
  assumes "is_digit c" and "is_digit d"
  shows "dec_literal [c, d] = Some (int (10 * digit_val c + digit_val d))"
  using assms digit_not_special [OF assms(1)] digit_not_special [OF assms(2)]
  by (simp add: dec_literal_def strip_def)


lemma four_digits_cases:
  assumes "four_digits number"
  obtains a b c d where "number = [a, b, c, d]"
    and "is_digit a" and "is_digit b" and "is_digit c" and "is_digit d"
proof -
  from assms have l: "length number = 4" and ds: "list_all is_digit number"
    by (simp_all add: four_digits_def)
  from l have "length number = Suc (Suc (Suc (Suc 0)))"
    by simp
  then obtain a b c d where n: "number = [a, b, c, d]"
    by (auto simp: length_Suc_conv)
  with ds that show thesis by simp
qed

lemma four_digits_decode:
  assumes "four_digits number"
  shows "decode number =
           Inr (real (digit_val (number ! 0)) / 100, real (digit_val (number ! 1)) / 10,
                real (10 * digit_val (number ! 2) + digit_val (number ! 3)) / 100)"
proof -
  from assms obtain a b c d where n: "number = [a, b, c, d]"
    and d: "is_digit a" "is_digit b" "is_digit c" "is_digit d"
    by (rule four_digits_cases)
  show ?thesis
    using d dec_literal_two_digits [OF d(3,4)]
    by (simp add: n decode_Inr_iff)
qed




section \<open>The outcomes of \<open>NACA4\<close>\<close>

lemma py_int_error: "py_int s = Inl e \<Longrightarrow> e = ValueError"
  by (auto simp: py_int_def split: option.splits)

lemma NACA4_invalid:
  assumes "\<not> valid_input number N"
  shows "NACA4 number N hc cte sv fs = Inl ValueError"
  using assms
  by (auto simp: NACA4_def valid_input_def split: sum.splits dest: py_int_error)

lemma NACA4_valid:
  assumes "valid_input number N"
  shows "NACA4 number N hc cte sv fs =
          (case decode number of Inl e \<Rightarrow> Inl e | Inr (m, p, t) \<Rightarrow>
           case coordinates hc cte m p t N of
             Inl e \<Rightarrow> Inl e
           | Inr cs \<Rightarrow>
               if sv
               then (case savetxt fs (''NACA '' @ number @ ''.dat'') cs [CHR 0x09] fmt_f
                            (''NACA '' @ number) of
                       Inl e \<Rightarrow> Inl e
                     | Inr fs' \<Rightarrow> Inr (cs, fs'))
               else Inr (cs, fs))"
  using assms
  by (auto simp: NACA4_def valid_input_def split: sum.splits)

lemma NACA4_Inr:
  assumes "NACA4 number N hc cte sv fs = Inr (cs, fs')"
  shows "valid_input number N
     \<and> (\<exists>m p t. decode number = Inr (m, p, t) \<and> coordinates hc cte m p t N = Inr cs)"
proof -
  have v: "valid_input number N"
    using assms NACA4_invalid [of number N hc cte sv fs] by auto
  show ?thesis
    using assms v by (auto simp: NACA4_valid split: sum.splits if_splits)
qed

lemma valid_input_pos: "valid_input number N \<Longrightarrow> 0 < N"
  by (auto simp: valid_input_def split: sum.splits)

lemma NACA4_returns:
  assumes "valid_input number N" and "decode number = Inr (m, p, t)"
  shows "\<exists>cs. NACA4 number N hc cte False fs = Inr (cs, fs)
           \<and> coordinates hc cte m p t N = Inr cs"
  using assms valid_input_pos [OF assms(1)]
  by (simp add: NACA4_valid coordinates_eq)

section \<open>The characters of an accepted designator\<close>

lemma digitpart_chars:
  "digitpart acc s = Some n \<Longrightarrow> c \<in> set s \<Longrightarrow> is_digit c \<or> c = CHR ''_''"
  by (induction acc s arbitrary: n rule: digitpart.induct) (auto split: if_splits)

lemma dropWhile_chars:
  assumes "c \<in> set s"
  shows "P c \<or> c \<in> set (dropWhile P s)"
proof -
  have "set s = set (takeWhile P s) \<union> set (dropWhile P s)"
    by (metis set_append takeWhile_dropWhile_id)
  then show ?thesis
    using assms set_takeWhileD [of c P s] by auto
qed

lemma strip_chars:
  assumes "c \<in> set s"
  shows "is_space c \<or> c \<in> set (strip s)"
proof -
  have "is_space c \<or> c \<in> set (rev (dropWhile is_space s))"
    using dropWhile_chars [OF assms, of is_space] by simp
  then show ?thesis
    using dropWhile_chars [of c "rev (dropWhile is_space s)" is_space]
    by (auto simp: strip_def)
qed

lemma py_int_alphabet:
  assumes "py_int s = Inr k" and "c \<in> set s"
  shows "is_space c \<or> c = CHR ''+'' \<or> c = CHR ''-'' \<or> c = CHR ''_'' \<or> is_digit c"
proof (cases "c \<in> set (strip s)")
  case False
  then show ?thesis
    using strip_chars [OF assms(2)] by simp
next
  case True
  from assms(1) have lit: "dec_literal s = Some k"
    by (auto simp: py_int_def split: option.splits)
  then obtain a as where st: "strip s = a # as"
    by (auto simp: dec_literal_def split: list.splits)
  show ?thesis
  proof (cases "a = CHR ''+'' \<or> a = CHR ''-''")
    case True
    then obtain n where "digitpart 0 as = Some n"
      using lit by (auto simp: dec_literal_def st)
    then show ?thesis
      using \<open>c \<in> set (strip s)\<close> True digitpart_chars [of 0 as n c] by (auto simp: st)
  next
    case False
    then obtain n where "digitpart 0 (a # as) = Some n"
      using lit by (auto simp: dec_literal_def st)
    then show ?thesis
      using \<open>c \<in> set (strip s)\<close> digitpart_chars [of 0 "a # as" n c] by (auto simp: st)
  qed
qed

section \<open>Concrete designators\<close>

lemmas literal_defs =
  py_int_def py_float_def dec_literal_def strip_def is_space_def is_digit_def digit_val_def

lemma valid_2412: "valid_input ''2412'' 3"
  by (simp add: valid_input_def literal_defs)

lemma decode_2412: "decode ''2412'' = Inr (2 / 100, 4 / 10, 12 / 100)"
  by (simp add: decode_eq literal_defs)

lemma valid_0012: "valid_input ''0012'' 3" and valid_0012_one: "valid_input ''0012'' 1"
  by (simp_all add: valid_input_def literal_defs)

lemma decode_0012: "decode ''0012'' = Inr (0, 0, 12 / 100)"
  by (simp add: decode_eq literal_defs)

lemma grid_three: "grid hc 3 = [0, 1 / 2, 1]"
  by (cases hc) (simp_all add: grid_def linspace_def Let_def upt_rec)

lemma NACA4_single_point_coordinates: "coordinates hc cte 0 0 (12 / 100) 1 = Inr [(0, 0)]"
  by (cases cte)
    (simp_all add: coordinates_def Let_def grid_one y_upper_def y_lower_def camber_def
      thickness_def)

lemma comment_lines_id: "CHR 0x0A \<notin> set s \<Longrightarrow> comment_lines s = s"
  by (induction s) auto

lemma fmt_f_zero: "fmt_f 0 = ''0.000000''"
proof -
  have "replicate 5 (CHR ''0'') = ''00000''"
    by (simp add: numeral_eq_Suc)
  then show ?thesis
    by (simp add: fmt_f_def show_nat.simps [of 0])
qed

section \<open>The direction of the loop\<close>

text \<open>
  The docstring calls the sequence clockwise.  The points run along the upper surface
  from the trailing edge to the leading edge and back along the lower surface; with the
  y axis upward this is counter-clockwise, as the signed area of the smallest open
  airfoil shows.
\<close>

lemma grid_two: "grid hc 2 = [0, 1]"
  by (cases hc) (simp_all add: grid_def linspace_def Let_def upt_rec)

lemma NACA4_0012_two_points:
  "NACA4 ''0012'' 2 False False False empty_fs
     = Inr ([(1, 126 / 100000), (0, 0), (1, - (126 / 100000))], empty_fs)"
proof -
  have v: "valid_input ''0012'' 2"
    by (simp add: valid_input_def literal_defs)
  have "coordinates False False 0 0 (12 / 100) 2
          = Inr [(1, 126 / 100000), (0, 0), (1, - (126 / 100000))]"
    by (simp add: coordinates_def Let_def grid_two y_upper_def y_lower_def camber_def
        thickness_def)
  then show ?thesis
    by (simp add: NACA4_valid [OF v] decode_0012)
qed

lemma NACA4_0012_counter_clockwise:
  "(case NACA4 ''0012'' 2 False False False empty_fs of
      Inl e \<Rightarrow> False
    | Inr (cs, fs') \<Rightarrow> signed_area2 cs = 252 / 100000 \<and> 0 < signed_area2 cs)"
  by (simp add: NACA4_0012_two_points signed_area2_def)

section \<open>The claims\<close>

text \<open>
  C1 (amended).  For every designator that passes the validation and is decoded without
  error (its first two characters are digits and the rest is a decimal literal, as for
  every designator of four digits), and every point count \<open>N > 0\<close>, the call returns a
  sequence of exactly \<open>2N - 1\<close> coordinate pairs; and whenever a call returns, its result
  has \<open>2N - 1\<close> pairs.
\<close>

theorem NACA4_point_count:
  assumes "valid_input number N" and "decodable number"
  shows "(\<exists>cs. NACA4 number N hc cte False fs = Inr (cs, fs) \<and> length cs = nat (2 * N - 1))
    \<and> (\<forall>cs' fs'. NACA4 number N hc cte sv fs = Inr (cs', fs') \<longrightarrow> length cs' = nat (2 * N - 1))"
proof -
  from assms(2) obtain m p t where d: "decode number = Inr (m, p, t)"
    by (auto simp: decodable_def split: sum.splits)
  from NACA4_returns [OF assms(1) d] obtain cs
    where r: "NACA4 number N hc cte False fs = Inr (cs, fs)"
      and c: "coordinates hc cte m p t N = Inr cs"
    by blast
  have N: "0 < N"
    using assms(1) by (rule valid_input_pos)
  have "length cs = nat (2 * N - 1)"
    using c N by (rule coordinates_Inr_pos)
  moreover have "length cs' = nat (2 * N - 1)"
    if "NACA4 number N hc cte sv fs = Inr (cs', fs')" for cs' fs'
    using NACA4_Inr [OF that] coordinates_Inr_pos N by blast
  ultimately show ?thesis
    using r by blast
qed

theorem NACA4_point_count_witness:
  "valid_input ''2412'' 3 \<and> decodable ''2412''
     \<and> (case NACA4 ''2412'' 3 True True False empty_fs of
           Inl e \<Rightarrow> False
         | Inr (cs, fs') \<Rightarrow> length cs = 5)"
proof -
  have v: "valid_input ''2412'' 3"
    by (rule valid_2412)
  have d: "decodable ''2412''"
    by (simp add: decodable_def decode_2412)
  from NACA4_point_count [OF v d, of True True empty_fs]
  obtain cs where "NACA4 ''2412'' 3 True True False empty_fs = Inr (cs, empty_fs)"
    and "length cs = 5"
    by auto
  then show ?thesis
    using v d by simp
qed

text \<open>
  C1 as stated fails at the designator \<open>12\<close>: it passes the validation, and
  \<open>float(number[2:])\<close> then raises on the empty string, so nothing is returned.
\<close>

theorem NACA4_two_characters:
  "valid_input ''12'' 5 \<and> NACA4 ''12'' 5 True True False empty_fs = Inl ValueError"
proof -
  have v: "valid_input ''12'' 5"
    by (simp add: valid_input_def literal_defs)
  have "decode ''12'' = Inl ValueError"
    by (simp add: decode_eq literal_defs)
  then show ?thesis
    using v by (simp add: NACA4_valid)
qed




text \<open>
  C3 (amended).  For every input that passes the validation and is decoded, the output
  is the reversed grid with the upper surface, from the last station down to the leading
  edge \<open>x = 0\<close>, followed by the lower surface from the station after the leading edge to
  the last station in increasing order; it has \<open>2N - 1\<close> points and the leading edge
  appears exactly once, at position \<open>N - 1\<close>.  For \<open>N > 1\<close> the loop starts and ends at the
  trailing edge \<open>x = 1\<close>.  (For \<open>N = 1\<close> the only point is the leading edge.)
\<close>

theorem NACA4_loop:
  assumes "valid_input number N" and "decode number = Inr (m, p, t)"
  shows "\<exists>cs. NACA4 number N hc cte False fs = Inr (cs, fs)
    \<and> map fst cs = rev (grid hc N) @ drop 1 (grid hc N)
    \<and> map snd cs = close_ends cte (rev (y_upper cte m p t (grid hc N))
                                     @ drop 1 (y_lower cte m p t (grid hc N)))
    \<and> length cs = nat (2 * N - 1)
    \<and> (1 < N \<longrightarrow> fst (hd cs) = 1 \<and> fst (last cs) = 1)
    \<and> (\<forall>k < length cs. fst (cs ! k) = 0 \<longleftrightarrow> k = nat N - 1)"
proof -
  let ?g = "grid hc N"
  let ?y = "close_ends cte (rev (y_upper cte m p t ?g) @ drop 1 (y_lower cte m p t ?g))"
  have N: "0 < N"
    using assms(1) by (rule valid_input_pos)
  from NACA4_returns [OF assms] obtain cs
    where r: "NACA4 number N hc cte False fs = Inr (cs, fs)"
      and c: "coordinates hc cte m p t N = Inr cs"
    by blast
  have cs: "cs = zip (rev ?g @ drop 1 ?g) ?y"
    using c by (simp add: coordinates_eq [OF N])
  have lx: "length (rev ?g @ drop 1 ?g) = length ?y"
    by (simp add: length_close_ends length_grid length_y_upper length_y_lower)
  have len: "length cs = nat (2 * N - 1)"
    using c N by (rule coordinates_Inr_pos)
  have xs: "map fst cs = rev ?g @ drop 1 ?g"
    unfolding cs using lx by (rule map_fst_zip)
  have ys: "map snd cs = ?y"
    unfolding cs using lx by (rule map_snd_zip)
  have ne: "cs \<noteq> []"
    using len N by auto
  have ends: "fst (hd cs) = 1 \<and> fst (last cs) = 1" if N1: "1 < N"
  proof -
    have i: "nat N - 1 < nat N" and i1: "1 \<le> nat N - 1"
      using N1 by simp_all
    have "cs ! (nat N - 1 - (nat N - 1)) = (?g ! (nat N - 1),
             if cte \<and> nat N - 1 = nat N - 1 then 0 else y_upper cte m p t ?g ! (nat N - 1))"
      using c i by (rule coordinates_upper)
    then have a: "fst (cs ! 0) = 1"
      using grid_last [OF N1, of hc] by simp
    have "cs ! (nat N - 1 + (nat N - 1)) = (?g ! (nat N - 1),
             if cte \<and> nat N - 1 = nat N - 1 then 0 else y_lower cte m p t ?g ! (nat N - 1))"
      using c i1 i by (rule coordinates_lower)
    moreover have "nat N - 1 + (nat N - 1) = length cs - 1"
      using idx_last [of "nat N"] N by (simp only: len nat_2N [OF N])
    ultimately have b: "fst (cs ! (length cs - 1)) = 1"
      using grid_last [OF N1, of hc] by simp
    show ?thesis
      using a b ne by (simp add: hd_conv_nth last_conv_nth)
  qed
  have once: "fst (cs ! k) = 0 \<longleftrightarrow> k = nat N - 1" if k: "k < length cs" for k
  proof (cases "k \<le> nat N - 1")
    case True
    define i where "i = nat N - 1 - k"
    have i: "i < nat N" and ki: "k = nat N - 1 - i"
      using True N by (simp_all add: i_def)
    have "cs ! (nat N - 1 - i) = (?g ! i,
             if cte \<and> i = nat N - 1 then 0 else y_upper cte m p t ?g ! i)"
      using c i by (rule coordinates_upper)
    then have "fst (cs ! k) = ?g ! i"
      by (simp add: ki)
    moreover have "i = 0 \<longleftrightarrow> k = nat N - 1"
      using True by (auto simp: i_def)
    ultimately show ?thesis
      using grid_zero_iff [OF i, of hc] by simp
  next
    case False
    define i where "i = k - (nat N - 1)"
    have i1: "1 \<le> i" and ki: "k = nat N - 1 + i"
      using False by (simp_all add: i_def)
    have i: "i < nat N"
      using k False by (simp add: i_def len nat_2N [OF N])
    have "cs ! (nat N - 1 + i) = (?g ! i,
             if cte \<and> i = nat N - 1 then 0 else y_lower cte m p t ?g ! i)"
      using c i1 i by (rule coordinates_lower)
    then have "fst (cs ! k) = ?g ! i"
      by (simp add: ki)
    then show ?thesis
      using grid_zero_iff [OF i, of hc] i1 False by simp
  qed
  show ?thesis
    using r xs ys len ends once by blast
qed

theorem NACA4_loop_witness:
  "valid_input ''0012'' 3 \<and> decode ''0012'' = Inr (0, 0, 12 / 100)
     \<and> (case NACA4 ''0012'' 3 False True False empty_fs of
           Inl e \<Rightarrow> False
         | Inr (cs, fs') \<Rightarrow> map fst cs = [1, 1 / 2, 0, 1 / 2, 1] \<and> length cs = 5
             \<and> fst (hd cs) = 1 \<and> fst (last cs) = 1 \<and> fst (cs ! 2) = 0)"
proof -
  from NACA4_loop [OF valid_0012 decode_0012, of False True empty_fs]
  obtain cs where r: "NACA4 ''0012'' 3 False True False empty_fs = Inr (cs, empty_fs)"
    and x: "map fst cs = rev (grid False 3) @ drop 1 (grid False 3)"
    and l: "length cs = 5"
    and e: "fst (hd cs) = 1 \<and> fst (last cs) = 1"
    and o: "\<forall>k < length cs. fst (cs ! k) = 0 \<longleftrightarrow> k = nat 3 - 1"
    by auto
  have "fst (cs ! 2) = 0"
    using o l by simp
  then show ?thesis
    using r x l e valid_0012 decode_0012 by (simp add: grid_three)
qed

text \<open>
  C3 as stated fails at \<open>N = 1\<close>: the grid is the single station 0, and the loop is the
  single point \<open>(0, 0)\<close>; it does not start or end at \<open>x = 1\<close>.
\<close>

theorem NACA4_single_point:
  "valid_input ''0012'' 1
     \<and> (case NACA4 ''0012'' 1 True True False empty_fs of
           Inl e \<Rightarrow> False
         | Inr (cs, fs') \<Rightarrow> cs = [(0, 0)] \<and> fst (hd cs) \<noteq> 1 \<and> fst (last cs) \<noteq> 1)
     \<and> (case NACA4 ''0012'' 1 False False False empty_fs of
           Inl e \<Rightarrow> False
         | Inr (cs, fs') \<Rightarrow> cs = [(0, 0)] \<and> fst (hd cs) \<noteq> 1 \<and> fst (last cs) \<noteq> 1)"
  using valid_0012_one NACA4_single_point_coordinates
  by (simp add: NACA4_valid decode_0012)

text \<open>
  C4.  With a closed trailing edge the thickness polynomial has the coefficient 0.10360
  at \<open>x\<^sup>4\<close>, with an open one 0.10150, and this coefficient is the only difference
  between the two thickness distributions; and the first and the last y-coordinate of
  every sequence returned with a closed trailing edge are 0.
\<close>

theorem closed_trailing_edge:
  "thickness True t x
      = map (\<lambda>v. t / 0.20 * (0.29690 * sqrt v - 0.12600 * v - 0.35160 * v ^ 2
                     + 0.28430 * v ^ 3 - 0.10360 * v ^ 4)) x
   \<and> thickness False t x
      = map (\<lambda>v. t / 0.20 * (0.29690 * sqrt v - 0.12600 * v - 0.35160 * v ^ 2
                     + 0.28430 * v ^ 3 - 0.10150 * v ^ 4)) x
   \<and> (\<forall>i < length x. thickness False t x ! i - thickness True t x ! i
                        = t / 0.20 * ((0.10360 - 0.10150) * (x ! i) ^ 4))
   \<and> (valid_input number N \<and> decodable number \<longrightarrow>
        (\<exists>cs. NACA4 number N hc True False fs = Inr (cs, fs)))
   \<and> (\<forall>cs fs'. NACA4 number N hc True sv fs = Inr (cs, fs') \<longrightarrow>
         snd (hd cs) = 0 \<and> snd (last cs) = 0)"
proof -
  have d: "thickness False t x ! i - thickness True t x ! i
             = t / 0.20 * ((0.10360 - 0.10150) * (x ! i) ^ 4)" if "i < length x" for i
    using that by (simp add: thickness_nth algebra_simps)
  have r: "\<exists>cs. NACA4 number N hc True False fs = Inr (cs, fs)"
    if "valid_input number N" and "decodable number"
  proof -
    from that(2) obtain m p t where "decode number = Inr (m, p, t)"
      by (auto simp: decodable_def split: sum.splits)
    from NACA4_returns [OF that(1) this] show ?thesis
      by blast
  qed
  have z: "snd (hd cs) = 0 \<and> snd (last cs) = 0"
    if "NACA4 number N hc True sv fs = Inr (cs, fs')" for cs fs'
  proof -
    from NACA4_Inr [OF that] obtain m p t
      where v: "valid_input number N" and c: "coordinates hc True m p t N = Inr cs"
      by blast
    have N: "0 < N"
      using v by (rule valid_input_pos)
    have len: "length cs = nat N + (nat N - 1)"
      using coordinates_Inr_pos [OF c N] by (simp add: nat_2N [OF N])
    then have ne: "cs \<noteq> []"
      using N by auto
    have i: "nat N - 1 < nat N"
      using N by simp
    have "cs ! (nat N - 1 - (nat N - 1)) = (grid hc N ! (nat N - 1),
             if True \<and> nat N - 1 = nat N - 1 then 0
             else y_upper True m p t (grid hc N) ! (nat N - 1))"
      using c i by (rule coordinates_upper)
    then have a: "snd (cs ! 0) = 0"
      by simp
    have b: "snd (cs ! (length cs - 1)) = 0"
    proof (cases "N = 1")
      case True
      then show ?thesis using a len by simp
    next
      case False
      then have i1: "1 \<le> nat N - 1"
        using N by simp
      have "cs ! (nat N - 1 + (nat N - 1)) = (grid hc N ! (nat N - 1),
               if True \<and> nat N - 1 = nat N - 1 then 0
               else y_lower True m p t (grid hc N) ! (nat N - 1))"
        using c i1 i by (rule coordinates_lower)
      moreover have "nat N - 1 + (nat N - 1) = length cs - 1"
        using idx_last [of "nat N"] N by (simp only: len)
      ultimately show ?thesis
        by simp
    qed
    show ?thesis
      using a b ne by (simp add: hd_conv_nth last_conv_nth)
  qed
  show ?thesis
    using d r z by (simp add: thickness_def)
qed

theorem closed_trailing_edge_witness:
  "valid_input ''2412'' 3 \<and> decodable ''2412''
     \<and> (case NACA4 ''2412'' 3 True True False empty_fs of
           Inl e \<Rightarrow> False
         | Inr (cs, fs') \<Rightarrow> snd (hd cs) = 0 \<and> snd (last cs) = 0)"
proof -
  have v: "valid_input ''2412'' 3"
    by (rule valid_2412)
  have d: "decodable ''2412''"
    by (simp add: decodable_def decode_2412)
  note t = closed_trailing_edge [of 0 "[]" "''2412''" 3 True empty_fs False]
  from t v d obtain cs where r: "NACA4 ''2412'' 3 True True False empty_fs = Inr (cs, empty_fs)"
    by blast
  with t have "snd (hd cs) = 0 \<and> snd (last cs) = 0"
    by blast
  then show ?thesis
    using v d r by simp
qed

text \<open>
  C5.  For an input that passes the validation and is decoded, with \<open>0 < p < 1\<close> and
  \<open>0 < m < 1\<close>, the camber at the station \<open>x\<close> is \<open>(m / p\<^sup>2) (2 p x - x\<^sup>2)\<close> when
  \<open>x < p\<close> and \<open>(m / (1 - p)\<^sup>2) ((1 - 2 p) + 2 p x - x\<^sup>2)\<close> when \<open>x \<ge> p\<close>; a station
  equal to \<open>p\<close> takes the aft formula.  Otherwise, which for such an input means
  \<open>m = 0\<close> or \<open>p = 0\<close>, the camber is 0 at every station.
\<close>

theorem camber_line_formula:
  assumes "valid_input number N" and "decode number = Inr (m, p, t)" and "i < nat N"
  shows "length (camber m p (grid hc N)) = nat N
    \<and> (0 < p \<and> p < 1 \<and> 0 < m \<and> m < 1 \<longrightarrow>
         camber m p (grid hc N) ! i =
           (if grid hc N ! i < p
            then m / p ^ 2 * (2 * p * grid hc N ! i - (grid hc N ! i) ^ 2)
            else m / (1 - p) ^ 2 * ((1 - 2 * p) + 2 * p * grid hc N ! i - (grid hc N ! i) ^ 2)))
    \<and> (0 < p \<and> p < 1 \<and> 0 < m \<and> m < 1 \<and> grid hc N ! i = p \<longrightarrow>
         camber m p (grid hc N) ! i = m / (1 - p) ^ 2 * ((1 - 2 * p) + 2 * p * p - p ^ 2))
    \<and> (\<not> (0 < p \<and> p < 1 \<and> 0 < m \<and> m < 1) \<longrightarrow> camber m p (grid hc N) ! i = 0)
    \<and> (\<not> (0 < p \<and> p < 1 \<and> 0 < m \<and> m < 1) \<longleftrightarrow> m = 0 \<or> p = 0)"
proof -
  have r: "0 \<le> m \<and> m \<le> 9 / 100 \<and> 0 \<le> p \<and> p \<le> 9 / 10"
    using assms(2) by (rule decode_range)
  then have b: "\<not> (0 < p \<and> p < 1 \<and> 0 < m \<and> m < 1) \<longleftrightarrow> m = 0 \<or> p = 0"
    by auto
  show ?thesis
    using b camber_nth [OF assms(3), of m p hc] by (simp add: length_camber length_grid)
qed

theorem camber_line_formula_witness:
  "valid_input ''2412'' 3 \<and> decode ''2412'' = Inr (2 / 100, 4 / 10, 12 / 100) \<and> 1 < nat 3
     \<and> camber (2 / 100) (4 / 10) (grid True 3) ! 1
         = (2 / 100) / (1 - 4 / 10) ^ 2 * ((1 - 2 * (4 / 10)) + 2 * (4 / 10) * (1 / 2) - (1 / 2) ^ 2)"
proof -
  have i: "1 < nat 3"
    by simp
  have "camber (2 / 100) (4 / 10) (grid True 3) ! 1
         = (2 / 100) / (1 - 4 / 10) ^ 2 * ((1 - 2 * (4 / 10)) + 2 * (4 / 10) * (1 / 2) - (1 / 2) ^ 2)"
    using camber_line_formula [OF valid_2412 decode_2412 i, of True] by (simp add: grid_three)
  then show ?thesis
    using valid_2412 decode_2412 i by simp
qed

text \<open>
  C6.  At every station \<open>x\<close> the half thickness is
  \<open>(t / 0.20) (0.29690 \<surd>x - 0.12600 x - 0.35160 x\<^sup>2 + 0.28430 x\<^sup>3 - c\<^sub>4 x\<^sup>4)\<close>, where \<open>t\<close> is
  the number read from the designator after its first two characters (digits 3 and 4 of
  a four-digit designator) divided by 100; the upper surface is the camber plus this
  thickness and the lower surface the camber minus it, at each station, and these are the
  y-coordinates of the result (the ends apart, which are 0 when the trailing edge is
  closed).
\<close>

theorem thickness_surfaces:
  assumes "valid_input number N" and "decode number = Inr (m, p, t)" and "i < nat N"
  shows "py_float (drop 2 number) = Inr (t * 100)
    \<and> (four_digits number \<longrightarrow>
          t = real (10 * digit_val (number ! 2) + digit_val (number ! 3)) / 100)
    \<and> thickness cte t (grid hc N) ! i =
          t / 0.20 * (0.29690 * sqrt (grid hc N ! i) - 0.12600 * grid hc N ! i
             - 0.35160 * (grid hc N ! i) ^ 2 + 0.28430 * (grid hc N ! i) ^ 3
             - (if cte then 0.10360 else 0.10150) * (grid hc N ! i) ^ 4)
    \<and> y_upper cte m p t (grid hc N) ! i
          = camber m p (grid hc N) ! i + thickness cte t (grid hc N) ! i
    \<and> y_lower cte m p t (grid hc N) ! i
          = camber m p (grid hc N) ! i - thickness cte t (grid hc N) ! i
    \<and> (\<exists>cs. NACA4 number N hc cte False fs = Inr (cs, fs)
          \<and> cs ! (nat N - 1 - i) =
              (grid hc N ! i,
               if cte \<and> i = nat N - 1 then 0
               else camber m p (grid hc N) ! i + thickness cte t (grid hc N) ! i)
          \<and> (1 \<le> i \<longrightarrow> cs ! (nat N - 1 + i) =
              (grid hc N ! i,
               if cte \<and> i = nat N - 1 then 0
               else camber m p (grid hc N) ! i - thickness cte t (grid hc N) ! i)))"
proof -
  let ?g = "grid hc N"
  have ig: "i < length ?g"
    using assms(3) by (simp add: length_grid)
  from assms(2) obtain k where "dec_literal (drop 2 number) = Some k"
    and "t = real_of_int k / 100"
    by (auto simp: decode_Inr_iff)
  then have a: "py_float (drop 2 number) = Inr (t * 100)"
    by (simp add: py_float_def)
  have b: "t = real (10 * digit_val (number ! 2) + digit_val (number ! 3)) / 100"
    if "four_digits number"
    using four_digits_decode [OF that] assms(2) by simp
  have th: "thickness cte t ?g ! i =
          t / 0.20 * (0.29690 * sqrt (?g ! i) - 0.12600 * ?g ! i
             - 0.35160 * (?g ! i) ^ 2 + 0.28430 * (?g ! i) ^ 3
             - (if cte then 0.10360 else 0.10150) * (?g ! i) ^ 4)"
    using ig by (rule thickness_nth)
  have u: "y_upper cte m p t ?g ! i = camber m p ?g ! i + thickness cte t ?g ! i"
    using ig by (rule y_upper_nth)
  have l: "y_lower cte m p t ?g ! i = camber m p ?g ! i - thickness cte t ?g ! i"
    using ig by (rule y_lower_nth)
  from NACA4_returns [OF assms(1,2)] obtain cs
    where r: "NACA4 number N hc cte False fs = Inr (cs, fs)"
      and c: "coordinates hc cte m p t N = Inr cs"
    by blast
  have cu: "cs ! (nat N - 1 - i) =
              (?g ! i, if cte \<and> i = nat N - 1 then 0
                       else camber m p ?g ! i + thickness cte t ?g ! i)"
    using coordinates_upper [OF c assms(3)] by (simp only: u)
  have cl: "cs ! (nat N - 1 + i) =
              (?g ! i, if cte \<and> i = nat N - 1 then 0
                       else camber m p ?g ! i - thickness cte t ?g ! i)" if "1 \<le> i"
    using coordinates_lower [OF c that assms(3)] by (simp only: l)
  have e: "\<exists>cs. NACA4 number N hc cte False fs = Inr (cs, fs)
          \<and> cs ! (nat N - 1 - i) =
              (?g ! i, if cte \<and> i = nat N - 1 then 0
                       else camber m p ?g ! i + thickness cte t ?g ! i)
          \<and> (1 \<le> i \<longrightarrow> cs ! (nat N - 1 + i) =
              (?g ! i, if cte \<and> i = nat N - 1 then 0
                       else camber m p ?g ! i - thickness cte t ?g ! i))"
    using r cu cl by blast
  show ?thesis
    using a b th u l e by blast
qed

theorem thickness_surfaces_witness:
  "valid_input ''0012'' 3 \<and> decode ''0012'' = Inr (0, 0, 12 / 100) \<and> 2 < nat 3
     \<and> four_digits ''0012''
     \<and> (12 / 100 :: real) = real (10 * digit_val (''0012'' ! 2) + digit_val (''0012'' ! 3)) / 100
     \<and> thickness False (12 / 100) (grid False 3) ! 2 = 12 / 100 / 0.20 * 0.0021
     \<and> y_upper False 0 0 (12 / 100) (grid False 3) ! 2
          = camber 0 0 (grid False 3) ! 2 + thickness False (12 / 100) (grid False 3) ! 2"
proof -
  have i: "2 < nat 3"
    by simp
  have f: "four_digits ''0012''"
    by (simp add: four_digits_def is_digit_def)
  note t = thickness_surfaces [OF valid_0012 decode_0012 i, of False False empty_fs]
  have a: "(12 / 100 :: real) = real (10 * digit_val (''0012'' ! 2) + digit_val (''0012'' ! 3)) / 100"
    using t f by blast
  have b: "thickness False (12 / 100) (grid False 3) ! 2 = 12 / 100 / 0.20 * 0.0021"
    using t by (simp add: grid_three)
  have c: "y_upper False 0 0 (12 / 100) (grid False 3) ! 2
          = camber 0 0 (grid False 3) ! 2 + thickness False (12 / 100) (grid False 3) ! 2"
    using t by blast
  show ?thesis
    using valid_0012 decode_0012 i f a b c by blast
qed



text \<open>
  C7 (amended).  For every point count \<open>N > 0\<close> the grid has exactly \<open>N\<close> stations, the
  first is 0, and it is strictly increasing under both spacings.  For \<open>N > 1\<close> the last
  station is 1, the stations are \<open>x\<^sub>i = (1 - cos (\<pi> i / (N - 1))) / 2\<close> under half-cosine
  spacing and \<open>x\<^sub>i = i / (N - 1)\<close> under linear spacing, and consecutive linear stations
  are \<open>1 / (N - 1)\<close> apart.  For \<open>N = 1\<close> the grid is the single station 0, so its last
  element is 0 and not 1.
\<close>

theorem grid_invariant:
  assumes "0 < N"
  shows "length (grid hc N) = nat N \<and> hd (grid hc N) = 0
    \<and> (\<forall>i j. i < j \<and> j < nat N \<longrightarrow> grid hc N ! i < grid hc N ! j)
    \<and> (1 < N \<longrightarrow> last (grid hc N) = 1)
    \<and> (1 < N \<longrightarrow> (\<forall>i < nat N.
           grid True N ! i = (1 - cos (pi * real i / real_of_int (N - 1))) / 2
         \<and> grid False N ! i = real i / real_of_int (N - 1)))
    \<and> (\<forall>i. Suc i < nat N \<longrightarrow>
           grid False N ! Suc i - grid False N ! i = 1 / real_of_int (N - 1))"
proof -
  have ne: "grid hc N \<noteq> []"
    using assms length_grid [of hc N] by (auto simp del: length_0_conv)
  have hd0: "hd (grid hc N) = 0"
    using grid_first [OF assms, of hc] ne by (simp add: hd_conv_nth)
  have lst: "1 < N \<Longrightarrow> last (grid hc N) = 1"
    using grid_last [of N hc] ne by (simp add: last_conv_nth length_grid)
  have step: "grid False N ! Suc i - grid False N ! i = 1 / real_of_int (N - 1)"
    if "Suc i < nat N" for i
  proof -
    have N: "1 < N" using that by linarith
    have i: "i < nat N" using that by simp
    show ?thesis
      using grid_nth_linear [OF N that] grid_nth_linear [OF N i]
      by (simp add: add_divide_distrib)
  qed
  show ?thesis
    using hd0 lst step grid_strict_mono [of _ _ N hc] grid_nth_cosine [of N] grid_nth_linear [of N]
    by (simp add: length_grid)
qed

theorem grid_invariant_witness:
  "length (grid True 3) = 3 \<and> hd (grid True 3) = 0 \<and> last (grid True 3) = 1
     \<and> grid True 3 ! 0 < grid True 3 ! 1 \<and> grid True 3 ! 1 < grid True 3 ! 2
     \<and> grid False 3 ! 1 = 1 / 2 \<and> grid True 3 ! 1 = 1 / 2"
proof -
  have h: "(0::int) < 3" by simp
  note g = grid_invariant [OF h, of True]
  have a: "grid True 3 ! 0 < grid True 3 ! 1"
    using g by simp
  have b: "grid True 3 ! 1 < grid True 3 ! 2"
    using g by simp
  have c: "grid False 3 ! 1 = 1 / 2 \<and> grid True 3 ! 1 = 1 / 2"
    using g by simp
  show ?thesis
    using g a b c by simp
qed

text \<open>
  C7 as stated fails at \<open>N = 1\<close>: \<open>np.linspace\<close> with one sample returns the start
  alone, so the last station is 0 under both spacings.
\<close>

theorem grid_single_station:
  "(0::int) < 1 \<and> length (grid True 1) = 1 \<and> last (grid True 1) = 0
     \<and> length (grid False 1) = 1 \<and> last (grid False 1) = 0 \<and> last (grid True 1) \<noteq> 1"
  by (simp add: grid_one)

text \<open>
  C8.  For every input that passes the validation and is decoded, and whose designator
  starts with the digit 0, the maximum camber is 0, the camber is 0 at every station,
  the lower surface is the negative of the upper surface at every station, and in the
  result the lower point of each station is the mirror image of its upper point.
\<close>

theorem symmetric_airfoil:
  assumes "valid_input number N" and "decode number = Inr (m, p, t)"
    and "number ! 0 = CHR ''0''"
  shows "m = 0
    \<and> (\<forall>i < nat N. camber m p (grid hc N) ! i = 0
          \<and> y_lower cte m p t (grid hc N) ! i = - y_upper cte m p t (grid hc N) ! i)
    \<and> (\<exists>cs. NACA4 number N hc cte False fs = Inr (cs, fs)
          \<and> (\<forall>i < nat N. cs ! (nat N - 1 + i)
                 = (fst (cs ! (nat N - 1 - i)), - snd (cs ! (nat N - 1 - i)))))"
proof -
  let ?g = "grid hc N"
  have N: "0 < N"
    using assms(1) by (rule valid_input_pos)
  have m: "m = 0"
    using assms(2,3) by (simp add: decode_Inr_iff digit_val_def)
  have cam: "camber m p ?g ! i = 0" if "i < nat N" for i
    using camber_nth [OF that, of m p hc] by (simp add: m)
  have sym: "y_lower cte m p t ?g ! i = - y_upper cte m p t ?g ! i" if "i < nat N" for i
    using that by (simp add: y_lower_nth y_upper_nth length_grid cam)
  from NACA4_returns [OF assms(1,2)] obtain cs
    where r: "NACA4 number N hc cte False fs = Inr (cs, fs)"
      and c: "coordinates hc cte m p t N = Inr cs"
    by blast
  have mir: "cs ! (nat N - 1 + i) = (fst (cs ! (nat N - 1 - i)), - snd (cs ! (nat N - 1 - i)))"
    if i: "i < nat N" for i
  proof (cases "i = 0")
    case True
    have z: "0 < nat N"
      using N by simp
    have "y_upper cte m p t ?g ! 0 = 0"
      using z by (simp add: y_upper_nth length_grid camber_first [OF N] thickness_first [OF N])
    moreover have "cs ! (nat N - 1 - 0) = (?g ! 0,
           if cte \<and> 0 = nat N - 1 then 0 else y_upper cte m p t ?g ! 0)"
      using c z by (rule coordinates_upper)
    ultimately have "cs ! (nat N - 1) = (?g ! 0, 0)"
      by simp
    then show ?thesis
      using True by simp
  next
    case False
    then have i1: "1 \<le> i"
      by simp
    have u: "cs ! (nat N - 1 - i) = (?g ! i,
           if cte \<and> i = nat N - 1 then 0 else y_upper cte m p t ?g ! i)"
      using c i by (rule coordinates_upper)
    have l: "cs ! (nat N - 1 + i) = (?g ! i,
           if cte \<and> i = nat N - 1 then 0 else y_lower cte m p t ?g ! i)"
      using c i1 i by (rule coordinates_lower)
    show ?thesis
      by (simp only: u l fst_conv snd_conv sym [OF i]) simp
  qed
  show ?thesis
    using m cam sym r mir by blast
qed

theorem symmetric_airfoil_witness:
  "valid_input ''0012'' 3 \<and> decode ''0012'' = Inr (0, 0, 12 / 100) \<and> ''0012'' ! 0 = CHR ''0''
     \<and> camber 0 0 (grid True 3) ! 1 = 0
     \<and> y_lower False 0 0 (12 / 100) (grid True 3) ! 1
          = - y_upper False 0 0 (12 / 100) (grid True 3) ! 1
     \<and> (case NACA4 ''0012'' 3 True False False empty_fs of
           Inl e \<Rightarrow> False
         | Inr (cs, fs') \<Rightarrow> cs ! 3 = (fst (cs ! 1), - snd (cs ! 1)))"
proof -
  have h: "''0012'' ! 0 = CHR ''0''"
    by simp
  note s = symmetric_airfoil [OF valid_0012 decode_0012 h, of True False empty_fs]
  have a: "camber 0 0 (grid True 3) ! 1 = 0
     \<and> y_lower False 0 0 (12 / 100) (grid True 3) ! 1
          = - y_upper False 0 0 (12 / 100) (grid True 3) ! 1"
    using s by simp
  from s obtain cs where r: "NACA4 ''0012'' 3 True False False empty_fs = Inr (cs, empty_fs)"
    and all: "\<forall>i < nat 3. cs ! (nat 3 - 1 + i) = (fst (cs ! (nat 3 - 1 - i)), - snd (cs ! (nat 3 - 1 - i)))"
    by blast
  have "(1::nat) < nat 3"
    by simp
  with all have "cs ! (nat 3 - 1 + 1) = (fst (cs ! (nat 3 - 1 - 1)), - snd (cs ! (nat 3 - 1 - 1)))"
    by blast
  moreover have "nat 3 - 1 + 1 = (3::nat)" and "nat 3 - 1 - 1 = (1::nat)"
    by simp_all
  ultimately have "cs ! 3 = (fst (cs ! 1), - snd (cs ! 1))"
    by (simp only:)
  then show ?thesis
    using valid_0012 decode_0012 h a r by simp
qed

text \<open>
  C9 (amended).  For an input that passes the validation and is decoded, whose
  designator has no line break, and when the file can be written: with \<open>save_to_file\<close>
  the call writes the file \<open>NACA <designator>.dat\<close>, whose content is the header line
  \<open># NACA <designator>\<close> (the header text after numpy's comment prefix) followed by
  \<open>2N - 1\<close> lines, each the x and the y of a point formatted with \<open>%f\<close> and separated by
  a tab; every other file is unchanged, and the sequence returned is the one returned
  without \<open>save_to_file\<close>.
\<close>

theorem save_to_file_effect:
  assumes "valid_input number N" and "decodable number"
    and "\<not> unwritable fs (''NACA '' @ number @ ''.dat'')"
    and "CHR 0x0A \<notin> set number"
  shows "\<exists>cs. NACA4 number N hc cte False fs = Inr (cs, fs)
    \<and> length cs = nat (2 * N - 1)
    \<and> NACA4 number N hc cte True fs =
         Inr (cs, fs\<lparr>files := (files fs)(''NACA '' @ number @ ''.dat'' \<mapsto>
                ''# NACA '' @ number @ [CHR 0x0A]
                @ concat (map (\<lambda>(a, b). fmt_f a @ [CHR 0x09] @ fmt_f b @ [CHR 0x0A]) cs))\<rparr>)"
proof -
  from assms(2) obtain m p t where d: "decode number = Inr (m, p, t)"
    by (auto simp: decodable_def split: sum.splits)
  have N: "0 < N"
    using assms(1) by (rule valid_input_pos)
  from NACA4_returns [OF assms(1) d] obtain cs
    where r: "NACA4 number N hc cte False fs = Inr (cs, fs)"
      and c: "coordinates hc cte m p t N = Inr cs"
    by blast
  have len: "length cs = nat (2 * N - 1)"
    using c N by (rule coordinates_Inr_pos)
  have "NACA4 number N hc cte True fs =
         Inr (cs, fs\<lparr>files := (files fs)(''NACA '' @ number @ ''.dat'' \<mapsto>
                ''# NACA '' @ number @ [CHR 0x0A]
                @ concat (map (\<lambda>(a, b). fmt_f a @ [CHR 0x09] @ fmt_f b @ [CHR 0x0A]) cs))\<rparr>)"
    using assms(3)
    by (simp add: NACA4_valid [OF assms(1)] d c savetxt_def comment_lines_id [OF assms(4)])
  then show ?thesis
    using r len by blast
qed

theorem save_to_file_effect_witness:
  "valid_input ''0012'' 1 \<and> decodable ''0012''
     \<and> \<not> unwritable empty_fs (''NACA '' @ ''0012'' @ ''.dat'')
     \<and> CHR 0x0A \<notin> set ''0012''
     \<and> NACA4 ''0012'' 1 True True False empty_fs = Inr ([(0, 0)], empty_fs)
     \<and> NACA4 ''0012'' 1 True True True empty_fs =
          Inr ([(0, 0)], empty_fs\<lparr>files := (files empty_fs)(''NACA 0012.dat'' \<mapsto>
                 ''# NACA 0012'' @ [CHR 0x0A] @ fmt_f 0 @ [CHR 0x09] @ fmt_f 0 @ [CHR 0x0A])\<rparr>)"
proof -
  have d: "decodable ''0012''"
    by (simp add: decodable_def decode_0012)
  have w: "\<not> unwritable empty_fs (''NACA '' @ ''0012'' @ ''.dat'')"
    by (simp add: empty_fs_def)
  have n: "CHR 0x0A \<notin> set ''0012''"
    by simp
  have one: "NACA4 ''0012'' 1 True True False empty_fs = Inr ([(0, 0)], empty_fs)"
    using NACA4_single_point_coordinates valid_0012_one by (simp add: NACA4_valid decode_0012)
  from save_to_file_effect [OF valid_0012_one d w n, of True True]
  obtain cs where "NACA4 ''0012'' 1 True True False empty_fs = Inr (cs, empty_fs)"
    and s: "NACA4 ''0012'' 1 True True True empty_fs =
         Inr (cs, empty_fs\<lparr>files := (files empty_fs)(''NACA '' @ ''0012'' @ ''.dat'' \<mapsto>
                ''# NACA '' @ ''0012'' @ [CHR 0x0A]
                @ concat (map (\<lambda>(a, b). fmt_f a @ [CHR 0x09] @ fmt_f b @ [CHR 0x0A]) cs))\<rparr>)"
    by blast
  then have "cs = [(0, 0)]"
    using one by simp
  then show ?thesis
    using s one d w n valid_0012_one by simp
qed

text \<open>
  C9 as stated fails on the header line: \<open>np.savetxt\<close> writes the header after its
  comment prefix, so the first line of the file for the designator \<open>0012\<close> is
  \<open># NACA 0012\<close> and not \<open>NACA 0012\<close>.
\<close>

theorem header_line_has_comment_prefix:
  "(case NACA4 ''0012'' 1 True True True empty_fs of
      Inl e \<Rightarrow> False
    | Inr (cs, fs') \<Rightarrow>
        (case files fs' ''NACA 0012.dat'' of
           None \<Rightarrow> False
         | Some content \<Rightarrow>
             content = ''# NACA 0012'' @ [CHR 0x0A] @ ''0.000000'' @ [CHR 0x09] @ ''0.000000''
                         @ [CHR 0x0A]
             \<and> first_line content = ''# NACA 0012''
             \<and> first_line content \<noteq> ''NACA 0012''))"
proof -
  have "savetxt empty_fs ''NACA 0012.dat'' [(0, 0)] [CHR 0x09] fmt_f ''NACA 0012''
          = Inr (empty_fs\<lparr>files := (files empty_fs)(''NACA 0012.dat'' \<mapsto>
                 ''# NACA 0012'' @ [CHR 0x0A] @ ''0.000000'' @ [CHR 0x09] @ ''0.000000''
                   @ [CHR 0x0A])\<rparr>)"
    by (simp add: savetxt_def empty_fs_def fmt_f_zero)
  then show ?thesis
    using NACA4_single_point_coordinates [of True True]
    by (simp add: NACA4_valid [OF valid_0012_one] decode_0012 first_line_def)
qed

text \<open>
  C10.  For every input that passes the validation and is decoded (every designator of
  four digits is), the coordinate at index \<open>N - 1\<close> of the result is \<open>(0, 0)\<close>: the first
  station is 0 under both spacings, and the thickness and the camber are 0 there.
\<close>

theorem leading_edge_origin:
  assumes "valid_input number N" and "decode number = Inr (m, p, t)"
  shows "grid hc N ! 0 = 0 \<and> thickness cte t (grid hc N) ! 0 = 0
    \<and> camber m p (grid hc N) ! 0 = 0
    \<and> (\<exists>cs. NACA4 number N hc cte False fs = Inr (cs, fs) \<and> cs ! (nat N - 1) = (0, 0))"
proof -
  have N: "0 < N"
    using assms(1) by (rule valid_input_pos)
  have z: "0 < nat N"
    using N by simp
  from NACA4_returns [OF assms] obtain cs
    where r: "NACA4 number N hc cte False fs = Inr (cs, fs)"
      and c: "coordinates hc cte m p t N = Inr cs"
    by blast
  have u: "y_upper cte m p t (grid hc N) ! 0 = 0"
    using z by (simp add: y_upper_nth length_grid camber_first [OF N] thickness_first [OF N])
  have "cs ! (nat N - 1 - 0) = (grid hc N ! 0,
           if cte \<and> 0 = nat N - 1 then 0 else y_upper cte m p t (grid hc N) ! 0)"
    using c z by (rule coordinates_upper)
  then have "cs ! (nat N - 1) = (0, 0)"
    by (simp add: grid_first [OF N] u)
  then show ?thesis
    using r grid_first [OF N] camber_first [OF N] thickness_first [OF N] by blast
qed

theorem leading_edge_origin_witness:
  "valid_input ''2412'' 3 \<and> decode ''2412'' = Inr (2 / 100, 4 / 10, 12 / 100)
     \<and> (case NACA4 ''2412'' 3 True False False empty_fs of
           Inl e \<Rightarrow> False
         | Inr (cs, fs') \<Rightarrow> cs ! 2 = (0, 0))"
proof -
  from leading_edge_origin [OF valid_2412 decode_2412, of True False empty_fs]
  obtain cs where "NACA4 ''2412'' 3 True False False empty_fs = Inr (cs, empty_fs)"
    and "cs ! (nat 3 - 1) = (0, 0)"
    by blast
  then show ?thesis
    using valid_2412 decode_2412 by simp
qed

end
